theory Spec2Isabelle
  imports Main "HOL-Library.Sublist"
begin

section \<open>Strings as the program uses them\<close>

text \<open>
  JavaScript strings are modelled as \<^typ>\<open>string\<close> (lists of 8-bit characters). The
  string methods the program calls are written out below with the behaviour of the
  ECMAScript methods of the same name on that range of characters.
\<close>

definition startsWith :: "string \<Rightarrow> string \<Rightarrow> bool" where
  "startsWith s p = (take (length p) s = p)"

definition endsWith :: "string \<Rightarrow> string \<Rightarrow> bool" where
  "endsWith s p = (length p \<le> length s \<and> drop (length s - length p) s = p)"

text \<open>\<open>s.slice(1)\<close> and \<open>s.slice(0, -1)\<close>.\<close>

definition slice1 :: "string \<Rightarrow> string" where
  "slice1 s = drop 1 s"

definition slice0m1 :: "string \<Rightarrow> string" where
  "slice0m1 s = take (length s - 1) s"

text \<open>
  White space and line terminators removed by \<open>String.prototype.trim\<close>, as far as they
  are 8-bit characters: TAB, LF, VT, FF, CR, SPACE and NBSP.
\<close>

definition isWhite :: "char \<Rightarrow> bool" where
  "isWhite c = (c \<in> set [CHR 0x09, CHR 0x0A, CHR 0x0B, CHR 0x0C, CHR 0x0D, CHR 0x20, CHR 0xA0])"

definition trim :: "string \<Rightarrow> string" where
  "trim s = rev (dropWhile isWhite (rev (dropWhile isWhite s)))"

text \<open>\<open>s.split(sep)\<close> for a one-character separator, and \<open>parts.join(sep)\<close>.\<close>

fun split :: "string \<Rightarrow> char \<Rightarrow> string list" where
  "split [] sep = [[]]"
| "split (c # cs) sep =
     (if c = sep then [] # split cs sep
      else (case split cs sep of
              [] \<Rightarrow> [[c]]
            | w # ws \<Rightarrow> (c # w) # ws))"

fun join :: "string list \<Rightarrow> string \<Rightarrow> string" where
  "join [] sep = []"
| "join [w] sep = w"
| "join (w # v # ws) sep = w @ sep @ join (v # ws) sep"

section \<open>Compiled rules and the inclusion decision\<close>

text \<open>
  A compiled rule is the object \<open>{ neg, rx, raw }\<close>. The regular expression \<open>rx\<close> is used
  only through \<open>rx.test(p)\<close> (it carries no \<open>g\<close> flag, so the test is stateless); it is
  modelled by the predicate it decides.
\<close>

record compiled =
  neg :: bool
  rx :: "string \<Rightarrow> bool"
  raw :: string

text \<open>The loop of \<open>isIncluded\<close>: \<open>include\<close> is the running verdict.\<close>

fun isIncluded_loop :: "string \<Rightarrow> bool \<Rightarrow> compiled list \<Rightarrow> bool" where
  "isIncluded_loop p include [] = include"
| "isIncluded_loop p include (r # rs) =
     (if rx r p then isIncluded_loop p (if neg r then True else False) rs
      else isIncluded_loop p include rs)"

text \<open>\<open>relPath.split("\\").join("/")\<close>: the path with POSIX separators.\<close>

definition posixPath :: "string \<Rightarrow> string" where
  "posixPath relPath = join (split relPath (CHR 0x5C)) ''/''"

definition isIncluded :: "string \<Rightarrow> compiled list \<Rightarrow> bool" where
  "isIncluded relPath compiledRules = isIncluded_loop (posixPath relPath) True compiledRules"

text \<open>
  The last rule of a list that matches a path, if any: the notion the specification uses
  to describe the verdict.
\<close>

definition lastMatch :: "string \<Rightarrow> compiled list \<Rightarrow> compiled option" where
  "lastMatch p rules =
     (let ms = filter (\<lambda>r. rx r p) rules in if ms = [] then None else Some (last ms))"

text \<open>
  The specification's Rule: a negation flag and one or more matchers. \<open>entries\<close> lists the
  compiled objects of one such rule, all with the rule's flag, as \<open>expandGlobRule\<close>
  produces them; \<open>decide\<close> is the inclusion decision in the specification's words (for
  each rule in order, if any matcher matches, the verdict becomes the rule's flag).
\<close>

record srule =
  negated :: bool
  matchers :: "(string \<Rightarrow> bool) list"
  rawtext :: string

definition entries :: "srule \<Rightarrow> compiled list" where
  "entries r = map (\<lambda>m. \<lparr>neg = negated r, rx = m, raw = rawtext r\<rparr>) (matchers r)"

definition matchesRule :: "srule \<Rightarrow> string \<Rightarrow> bool" where
  "matchesRule r p = list_ex (\<lambda>m. m p) (matchers r)"

fun decide_loop :: "string \<Rightarrow> bool \<Rightarrow> srule list \<Rightarrow> bool" where
  "decide_loop p verdict [] = verdict"
| "decide_loop p verdict (r # rs) =
     decide_loop p (if matchesRule r p then negated r else verdict) rs"

definition decide :: "string \<Rightarrow> srule list \<Rightarrow> bool" where
  "decide p R = decide_loop p True R"

definition lastMatchingRule :: "string \<Rightarrow> srule list \<Rightarrow> srule option" where
  "lastMatchingRule p R =
     (let ms = filter (\<lambda>r. matchesRule r p) R in if ms = [] then None else Some (last ms))"

section \<open>Glob patterns\<close>

datatype error = MalformedGlob string | DirUnreadable string

text \<open>
  The program compiles its patterns with \<open>globToRegExp\<close> of the library
  \<open>jsr:@std/path\<close>, which is not part of the repository. Every function of the program
  that compiles globs takes the compiler as its parameter \<open>toRegExp\<close> (the library
  function, called with the fixed flags \<open>{ extended: true, globstar: true }\<close>; it returns
  a matcher or throws), so that what is proved of them holds for any glob compiler.

  For concrete patterns, the glob language is modelled as the specification (4.1)
  describes it: a glob is read segment by segment; a segment that is exactly \<open>**\<close> is a
  globstar, any other segment is a sequence of literal characters, \<open>*\<close>, \<open>?\<close> and sets; a
  set lists characters and ranges \<open>a-z\<close> and is complemented by a leading \<open>!\<close>; a set that
  is not closed is malformed.
\<close>

datatype gtok = Lit char | AnyChar | AnyRun | OneOf bool "(char \<times> char) list"

datatype gseg = Globstar | Seg "gtok list"

fun parseSeg :: "(bool \<times> (char \<times> char) list) option \<Rightarrow> string \<Rightarrow> gtok list option" where
  "parseSeg None [] = Some []"
| "parseSeg (Some st) [] = None"
| "parseSeg None (c # cs) =
     (if c = CHR ''*'' then map_option (Cons AnyRun) (parseSeg None cs)
      else if c = CHR ''?'' then map_option (Cons AnyChar) (parseSeg None cs)
      else if c = CHR ''['' then
        (case cs of
           [] \<Rightarrow> None
         | d # ds \<Rightarrow> if d = CHR ''!'' then parseSeg (Some (True, [])) ds
                    else parseSeg (Some (False, [])) (d # ds))
      else map_option (Cons (Lit c)) (parseSeg None cs))"
| "parseSeg (Some (n, rs)) (c # cs) =
     (if c = CHR '']'' then map_option (Cons (OneOf n (rev rs))) (parseSeg None cs)
      else (case cs of
              d # e # rest \<Rightarrow>
                if d = CHR ''-'' \<and> e \<noteq> CHR '']'' then parseSeg (Some (n, (c, e) # rs)) rest
                else parseSeg (Some (n, (c, c) # rs)) cs
            | _ \<Rightarrow> parseSeg (Some (n, (c, c) # rs)) cs))"

definition parseGlobSeg :: "string \<Rightarrow> gseg option" where
  "parseGlobSeg s = (if s = ''**'' then Some Globstar else map_option Seg (parseSeg None s))"

fun parseSegs :: "string list \<Rightarrow> gseg list option" where
  "parseSegs [] = Some []"
| "parseSegs (s # ss) =
     (case parseGlobSeg s of
        None \<Rightarrow> None
      | Some g \<Rightarrow> map_option (Cons g) (parseSegs ss))"

definition inRanges :: "char \<Rightarrow> (char \<times> char) list \<Rightarrow> bool" where
  "inRanges c rs =
     list_ex (\<lambda>(lo, hi). (of_char lo :: nat) \<le> of_char c \<and> (of_char c :: nat) \<le> of_char hi) rs"

fun matchSeg :: "gtok list \<Rightarrow> string \<Rightarrow> bool" where
  "matchSeg [] s = (s = [])"
| "matchSeg (AnyRun # ts) [] = matchSeg ts []"
| "matchSeg (AnyRun # ts) (x # xs) = (matchSeg ts (x # xs) \<or> matchSeg (AnyRun # ts) xs)"
| "matchSeg (t # ts) [] = False"
| "matchSeg (Lit c # ts) (x # xs) = (x = c \<and> matchSeg ts xs)"
| "matchSeg (AnyChar # ts) (x # xs) = matchSeg ts xs"
| "matchSeg (OneOf n rs # ts) (x # xs) = (inRanges x rs \<noteq> n \<and> matchSeg ts xs)"

fun matchSegs :: "gseg list \<Rightarrow> string list \<Rightarrow> bool" where
  "matchSegs [] ps = (ps = [])"
| "matchSegs (Globstar # gs) [] = matchSegs gs []"
| "matchSegs (Globstar # gs) (p # ps) = (matchSegs gs (p # ps) \<or> matchSegs (Globstar # gs) ps)"
| "matchSegs (Seg ts # gs) [] = False"
| "matchSegs (Seg ts # gs) (p # ps) = (matchSeg ts p \<and> matchSegs gs ps)"

text \<open>
  Modelled from the spec: \<open>globToRegExp\<close> of the library \<open>jsr:@std/path\<close>, which is not in
  the repository. The specification (4.1) gives its semantics: \<open>*\<close> matches within a path
  segment, \<open>**\<close> matches across segments (including zero segments), \<open>?\<close> matches one
  character, \<open>[...]\<close> matches a character set; matching is against POSIX paths with \<open>/\<close>
  between segments; malformed syntax is an error.
\<close>

definition globToRegExp :: "string \<Rightarrow> error + (string \<Rightarrow> bool)" where
  "globToRegExp glob =
     (case parseSegs (split glob (CHR ''/'')) of
        None \<Rightarrow> Inl (MalformedGlob glob)
      | Some gs \<Rightarrow> Inr (\<lambda>p. matchSegs gs (split p (CHR ''/''))))"

section \<open>Compiling rules\<close>

text \<open>
  \<open>expandGlobRule\<close>: the template literals are string concatenations; an exception of
  \<open>globToRegExp\<close> leaves the function at the first call that raises it.
\<close>

definition expandGlobRule ::
  "(string \<Rightarrow> error + (string \<Rightarrow> bool)) \<Rightarrow> string \<Rightarrow> error + compiled list" where
  "expandGlobRule toRegExp rule =
     (let ng = startsWith rule ''!'';
          rawPat = (if ng then slice1 rule else rule);
          pat = trim rawPat
      in if endsWith pat ''/'' then
           (let dir = pat;
                dirNoSlash = slice0m1 pat
            in case toRegExp (''**/'' @ dir @ ''**'') of Inl e \<Rightarrow> Inl e | Inr rx1 \<Rightarrow>
               (case toRegExp (dir @ ''**'') of Inl e \<Rightarrow> Inl e | Inr rx2 \<Rightarrow>
               (case toRegExp (''**/'' @ dirNoSlash) of Inl e \<Rightarrow> Inl e | Inr rx3 \<Rightarrow>
               (case toRegExp dirNoSlash of Inl e \<Rightarrow> Inl e | Inr rx4 \<Rightarrow>
                  Inr [\<lparr>neg = ng, rx = rx1, raw = rule\<rparr>,
                       \<lparr>neg = ng, rx = rx2, raw = rule\<rparr>,
                       \<lparr>neg = ng, rx = rx3, raw = rule\<rparr>,
                       \<lparr>neg = ng, rx = rx4, raw = rule\<rparr>]))))
         else (case toRegExp pat of Inl e \<Rightarrow> Inl e
               | Inr rx0 \<Rightarrow> Inr [\<lparr>neg = ng, rx = rx0, raw = rule\<rparr>]))"

text \<open>The pattern \<open>expandGlobRule\<close> compiles: the rule without its leading \<open>!\<close>, trimmed.\<close>

definition patternOf :: "string \<Rightarrow> string" where
  "patternOf rule = trim (if startsWith rule ''!'' then slice1 rule else rule)"

section \<open>Loading the rule files\<close>

datatype io_error = NotFound | PermissionDenied | IsADirectory | OtherIOError

text \<open>
  What the program reads from its environment: the environment variables, the text
  files (\<open>Deno.readTextFileSync\<close> returns the text or throws) and \<open>join\<close> of the path
  library.
\<close>

record sys =
  envGet :: "string \<Rightarrow> string option"
  readTextFileSync :: "string \<Rightarrow> io_error + string"
  pathJoin :: "string \<Rightarrow> string \<Rightarrow> string"

text \<open>\<open>text.split(/\r?\n/)\<close>.\<close>

fun splitLines :: "string \<Rightarrow> string list" where
  "splitLines [] = [[]]"
| "splitLines [c] = (if c = CHR 0x0A then [[], []] else [[c]])"
| "splitLines (c # d # cs) =
     (if c = CHR 0x0A then [] # splitLines (d # cs)
      else if c = CHR 0x0D \<and> d = CHR 0x0A then [] # splitLines cs
      else (case splitLines (d # cs) of
              [] \<Rightarrow> [[c]]
            | w # ws \<Rightarrow> (c # w) # ws))"

text \<open>\<open>readLinesIfExists\<close>: the \<open>catch\<close> has no binding and no test, it takes every exception.\<close>

definition readLinesIfExists :: "sys \<Rightarrow> string \<Rightarrow> string list" where
  "readLinesIfExists s path =
     (case readTextFileSync s path of
        Inr text \<Rightarrow> splitLines text
      | Inl e \<Rightarrow> [])"

text \<open>The two \<open>for\<close> loops of \<open>loadExcludeRules\<close> over the lines of a rule file.\<close>

fun pushLines :: "string list \<Rightarrow> string list \<Rightarrow> string list" where
  "pushLines rules [] = rules"
| "pushLines rules (line # ls) =
     (let s = trim line
      in if s = [] \<or> startsWith s ''#'' then pushLines rules ls
         else pushLines (rules @ [s]) ls)"

text \<open>The function given to \<open>rules.map\<close>, and \<open>map\<close> with a function that may throw.\<close>

definition compileRule ::
  "(string \<Rightarrow> error + (string \<Rightarrow> bool)) \<Rightarrow> string \<Rightarrow> error + compiled" where
  "compileRule toRegExp rule =
     (let ng = startsWith rule ''!'';
          pattern = (if ng then slice1 rule else rule)
      in case toRegExp pattern of
           Inl e \<Rightarrow> Inl e
         | Inr rx0 \<Rightarrow> Inr \<lparr>neg = ng, rx = rx0, raw = rule\<rparr>)"

fun mapE :: "('a \<Rightarrow> error + 'b) \<Rightarrow> 'a list \<Rightarrow> error + 'b list" where
  "mapE f [] = Inr []"
| "mapE f (x # xs) =
     (case f x of
        Inl e \<Rightarrow> Inl e
      | Inr y \<Rightarrow> (case mapE f xs of Inl e \<Rightarrow> Inl e | Inr ys \<Rightarrow> Inr (y # ys)))"

text \<open>\<open>a || b\<close> on values that are a string or \<open>undefined\<close>.\<close>

definition orElse :: "string option \<Rightarrow> string option \<Rightarrow> string option" where
  "orElse a b = (case a of Some x \<Rightarrow> if x \<noteq> [] then Some x else b | None \<Rightarrow> b)"

definition loadExcludeRules ::
  "(string \<Rightarrow> error + (string \<Rightarrow> bool)) \<Rightarrow> sys \<Rightarrow> bool \<Rightarrow> string \<Rightarrow> error + compiled list" where
  "loadExcludeRules toRegExp s noGlobal rootDir =
     (let rules0 = [];
          localPath = pathJoin s rootDir ''.generate-toc-exclude'';
          home = (case orElse (orElse (envGet s ''HOME'') (envGet s ''USERPROFILE'')) (Some [])
                  of Some h \<Rightarrow> h | None \<Rightarrow> []);
          globalPath = (if home \<noteq> [] then pathJoin s home ''.generate-toc-exclude'' else []);
          rules1 = (if \<not> noGlobal \<and> globalPath \<noteq> []
                    then pushLines rules0 (readLinesIfExists s globalPath) else rules0);
          rules2 = pushLines rules1 (readLinesIfExists s localPath)
      in mapE (compileRule toRegExp) rules2)"

text \<open>
  A line that the rule file format ignores: blank after trimming, or with \<open>#\<close> as its
  first character that is not white space.
\<close>

definition ignorable :: "string \<Rightarrow> bool" where
  "ignorable line =
     (case dropWhile isWhite line of [] \<Rightarrow> True | c # cs \<Rightarrow> c = CHR ''#'')"

section \<open>The tree\<close>

text \<open>
  A Tree Node \<open>{ name, children, files }\<close>. \<open>children\<close> is a JavaScript \<open>Map\<close>: it keeps the
  keys in insertion order, so it is an association list; \<open>files\<close> is an array.
\<close>

datatype node = Node (name: string) (children: "(string \<times> node) list") (files: "string list")

text \<open>\<open>Map.prototype.has\<close>, \<open>get\<close> and \<open>set\<close>: \<open>set\<close> on a key that is present keeps its place.\<close>

definition mapHas :: "(string \<times> 'v) list \<Rightarrow> string \<Rightarrow> bool" where
  "mapHas m k = (map_of m k \<noteq> None)"

definition mapGet :: "(string \<times> 'v) list \<Rightarrow> string \<Rightarrow> 'v option" where
  "mapGet m k = map_of m k"

fun mapSet :: "(string \<times> 'v) list \<Rightarrow> string \<Rightarrow> 'v \<Rightarrow> (string \<times> 'v) list" where
  "mapSet [] k v = [(k, v)]"
| "mapSet ((k', v') # m) k v = (if k' = k then (k, v) # m else (k', v') # mapSet m k v)"

definition createNode :: "string \<Rightarrow> node" where
  "createNode nm = Node nm [] []"

text \<open>
  \<open>insertPath\<close> changes the tree in place: it pushes the file name, or adds an empty child
  under \<open>dir\<close> when there is none and goes on in the child stored under \<open>dir\<close>. The model
  returns the changed tree, with the changed child stored under \<open>dir\<close>. \<open>get\<close> always
  finds the child there; where the code would fail on \<open>undefined\<close> the model returns the
  tree as it is, a branch that is never taken (lemma \<open>insertPath_step\<close>).
\<close>

fun insertPath :: "node \<Rightarrow> string list \<Rightarrow> node" where
  "insertPath root [] = root"
| "insertPath root [f] = Node (name root) (children root) (files root @ [f])"
| "insertPath root (dir # r # rest) =
     (let ch = (if \<not> mapHas (children root) dir
                then mapSet (children root) dir (createNode dir) else children root)
      in case mapGet ch dir of
           Some child \<Rightarrow> Node (name root) (mapSet ch dir (insertPath child (r # rest))) (files root)
         | None \<Rightarrow> root)"

section \<open>The traversal\<close>

text \<open>
  A directory entry as \<open>Deno.readDir\<close> yields it: a file, a directory, or something else
  (a symbolic link, for which \<open>isFile\<close> and \<open>isDirectory\<close> are both false). A directory
  carries what reading it yields: its entries in enumeration order, or \<open>None\<close> when
  \<open>Deno.readDir\<close> throws.
\<close>

datatype entry = File string | Directory string "entry list option" | Symlink string

fun entryName :: "entry \<Rightarrow> string" where
  "entryName (File n) = n"
| "entryName (Directory n l) = n"
| "entryName (Symlink n) = n"

text \<open>
  \<open>posix.join(relDir, entry.name)\<close> with a non-empty \<open>relDir\<close>. \<open>Deno.readDir\<close> yields
  names that are not empty, contain no \<open>/\<close> and are neither \<open>.\<close> nor \<open>..\<close>; on paths made of
  such names the library function has nothing to normalise and puts a \<open>/\<close> in between.
\<close>

definition posix_join :: "string \<Rightarrow> string \<Rightarrow> string" where
  "posix_join relDir nm = relDir @ ''/'' @ nm"

definition relOf :: "string \<Rightarrow> entry \<Rightarrow> string" where
  "relOf relDir entry =
     (if relDir \<noteq> [] then posix_join relDir (entryName entry) else entryName entry)"

text \<open>
  \<open>walkDir\<close>, on the entries that reading \<open>absDir\<close> yields. The tree \<open>root\<close> that the
  closure changes is passed along and returned.
\<close>

fun walkDir :: "compiled list \<Rightarrow> entry list \<Rightarrow> string \<Rightarrow> node \<Rightarrow> error + node" where
  "walkDir compiledRules [] relDir root = Inr root"
| "walkDir compiledRules (entry # es) relDir root =
     (let rel = relOf relDir entry
      in if \<not> isIncluded rel compiledRules then walkDir compiledRules es relDir root
         else (case entry of
                 Directory n l \<Rightarrow>
                   (case l of
                      None \<Rightarrow> Inl (DirUnreadable rel)
                    | Some sub \<Rightarrow>
                        (case walkDir compiledRules sub rel root of
                           Inl e \<Rightarrow> Inl e
                         | Inr root' \<Rightarrow> walkDir compiledRules es relDir root'))
               | File n \<Rightarrow>
                   walkDir compiledRules es relDir (insertPath root (split rel (CHR ''/'')))
               | Symlink n \<Rightarrow> walkDir compiledRules es relDir root))"

text \<open>\<open>buildTree\<close>, on what reading \<open>rootDir\<close> yields.\<close>

definition buildTree :: "entry list option \<Rightarrow> compiled list \<Rightarrow> error + node" where
  "buildTree rootListing compiledRules =
     (let root = createNode []
      in case rootListing of
           None \<Rightarrow> Inl (DirUnreadable [])
         | Some es \<Rightarrow> walkDir compiledRules es [] root)"

section \<open>Notions used to state the properties\<close>

text \<open>
  The negation flag and the remainder of a raw rule in the specification's words: a
  single leading \<open>!\<close> is stripped; and the globs that are compiled for a pattern.
\<close>

definition negatedOf :: "string \<Rightarrow> bool" where
  "negatedOf rule = (case rule of [] \<Rightarrow> False | c # cs \<Rightarrow> c = CHR ''!'')"

definition remainderOf :: "string \<Rightarrow> string" where
  "remainderOf rule = (case rule of [] \<Rightarrow> [] | c # cs \<Rightarrow> if c = CHR ''!'' then cs else rule)"

definition globsOf :: "string \<Rightarrow> string list" where
  "globsOf pat =
     (if endsWith pat ''/''
      then [''**/'' @ pat @ ''**'', pat @ ''**'', ''**/'' @ slice0m1 pat, slice0m1 pat]
      else [pat])"

text \<open>
  Modelled from the spec: the Rule Set of a list of rule lines. The part of the file that
  defines \<open>expandGlobRule\<close> ends with it, and the loader in the rest of the file compiles
  each line itself (\<open>compileRule\<close>). The specification (3, 4.2) describes the Rule Set as
  the rules in order, each with its matchers: \<open>ruleSet\<close> is the expansion of each line, in
  order. It serves to write down concrete Rule Sets.
\<close>

definition ruleSet ::
  "(string \<Rightarrow> error + (string \<Rightarrow> bool)) \<Rightarrow> string list \<Rightarrow> error + compiled list" where
  "ruleSet toRegExp ls =
     (case mapE (expandGlobRule toRegExp) ls of Inl e \<Rightarrow> Inl e | Inr xs \<Rightarrow> Inr (concat xs))"

definition rulesOfLines :: "string list \<Rightarrow> compiled list" where
  "rulesOfLines ls = (case ruleSet globToRegExp ls of Inl e \<Rightarrow> [] | Inr rs \<Rightarrow> rs)"

text \<open>The lines that \<open>loadExcludeRules\<close> reads: the global file's, then the local file's.\<close>

definition ruleLines :: "sys \<Rightarrow> bool \<Rightarrow> string \<Rightarrow> string list" where
  "ruleLines s noGlobal rootDir =
     (let home = (case orElse (orElse (envGet s ''HOME'') (envGet s ''USERPROFILE'')) (Some [])
                  of Some h \<Rightarrow> h | None \<Rightarrow> []);
          globalPath = (if home \<noteq> [] then pathJoin s home ''.generate-toc-exclude'' else [])
      in (if \<not> noGlobal \<and> globalPath \<noteq> [] then readLinesIfExists s globalPath else [])
         @ readLinesIfExists s (pathJoin s rootDir ''.generate-toc-exclude''))"

text \<open>
  Concrete environments: a home directory \<open>/home/u\<close> without a global rule file, and a
  local rule file with the given text, or one that cannot be read.
\<close>

definition sysWithLocal :: "io_error + string \<Rightarrow> sys" where
  "sysWithLocal content =
     \<lparr>envGet = (\<lambda>v. if v = ''HOME'' then Some ''/home/u'' else None),
      readTextFileSync = (\<lambda>p. if p = ''./.generate-toc-exclude'' then content else Inl NotFound),
      pathJoin = (\<lambda>a b. a @ ''/'' @ b)\<rparr>"


text \<open>
  The Rule Set that \<open>loadExcludeRules\<close> gives for a local rule file with the given text
  (global rules disabled), with the modelled glob compiler; and a glob compiler whose
  matcher accepts exactly the pattern it was given, to see which pattern is compiled.
\<close>

definition loaderRules :: "string \<Rightarrow> compiled list" where
  "loaderRules content =
     (case loadExcludeRules globToRegExp (sysWithLocal (Inr content)) True ''.'' of
        Inl e \<Rightarrow> []
      | Inr cs \<Rightarrow> cs)"

definition literalGlob :: "string \<Rightarrow> error + (string \<Rightarrow> bool)" where
  "literalGlob g = Inr (\<lambda>p. p = g)"

section \<open>Notions used to state the properties of the tree\<close>

text \<open>
  The node reached from a node by a list of directory names, if there is one; whether a
  tree holds a file at a path (a non-empty list of names, the last one the file's);
  whether it holds a directory node at a path below the root; whether a path is in the
  tree at all.
\<close>

fun lookup :: "node \<Rightarrow> string list \<Rightarrow> node option" where
  "lookup n [] = Some n"
| "lookup n (d # ds) = (case mapGet (children n) d of None \<Rightarrow> None | Some c \<Rightarrow> lookup c ds)"

definition hasFile :: "node \<Rightarrow> string list \<Rightarrow> bool" where
  "hasFile t p =
     (p \<noteq> [] \<and> (case lookup t (butlast p) of None \<Rightarrow> False | Some n \<Rightarrow> last p \<in> set (files n)))"

definition hasNode :: "node \<Rightarrow> string list \<Rightarrow> bool" where
  "hasNode t p = (p \<noteq> [] \<and> lookup t p \<noteq> None)"

definition inTree :: "node \<Rightarrow> string list \<Rightarrow> bool" where
  "inTree t p = (hasFile t p \<or> hasNode t p)"

text \<open>
  A node is not empty when it holds a file or a child that is not empty; \<open>allNonEmpty\<close>
  says that every node below a node is not empty.
\<close>

fun nonEmpty :: "node \<Rightarrow> bool" where
  "nonEmpty (Node nm ch fs) = (fs \<noteq> [] \<or> list_ex nonEmpty (map snd ch))"

fun allNonEmpty :: "node \<Rightarrow> bool" where
  "allNonEmpty (Node nm ch fs) = list_all (\<lambda>c. nonEmpty c \<and> allNonEmpty c) (map snd ch)"

text \<open>The child under a key, or a new node when there is none.\<close>

definition childAt :: "node \<Rightarrow> string \<Rightarrow> node" where
  "childAt root dir = (case mapGet (children root) dir of None \<Rightarrow> createNode dir | Some c \<Rightarrow> c)"

text \<open>
  The files that a recursive scan of a directory keeps, as relative paths in the order of
  the traversal: the files that are included and lie in included directories only.
\<close>

fun keptFiles :: "compiled list \<Rightarrow> entry list \<Rightarrow> string \<Rightarrow> string list" where
  "keptFiles compiledRules [] relDir = []"
| "keptFiles compiledRules (File n # es) relDir =
     (if isIncluded (relOf relDir (File n)) compiledRules
      then relOf relDir (File n) # keptFiles compiledRules es relDir
      else keptFiles compiledRules es relDir)"
| "keptFiles compiledRules (Directory n l # es) relDir =
     (if isIncluded (relOf relDir (Directory n l)) compiledRules
      then (case l of None \<Rightarrow> [] | Some sub \<Rightarrow>
              keptFiles compiledRules sub (relOf relDir (Directory n l)))
           @ keptFiles compiledRules es relDir
      else keptFiles compiledRules es relDir)"
| "keptFiles compiledRules (Symlink n # es) relDir = keptFiles compiledRules es relDir"

text \<open>A file that the rules exclude.\<close>

definition excludedFile :: "compiled list \<Rightarrow> string \<Rightarrow> entry \<Rightarrow> bool" where
  "excludedFile compiledRules relDir e =
     (case e of
        File n \<Rightarrow> \<not> isIncluded (relOf relDir e) compiledRules
      | Directory n l \<Rightarrow> False
      | Symlink n \<Rightarrow> False)"

text \<open>
  The names a file system gives its entries: not empty, without \<open>/\<close>, neither \<open>.\<close> nor
  \<open>..\<close>.
\<close>

definition wfName :: "string \<Rightarrow> bool" where
  "wfName n = (n \<noteq> [] \<and> CHR ''/'' \<notin> set n \<and> n \<noteq> ''.'' \<and> n \<noteq> ''..'')"

fun wfEntry :: "entry \<Rightarrow> bool" where
  "wfEntry (File n) = wfName n"
| "wfEntry (Symlink n) = wfName n"
| "wfEntry (Directory n None) = wfName n"
| "wfEntry (Directory n (Some sub)) = (wfName n \<and> list_all wfEntry sub)"

text \<open>A tree, a directory and a Rule Set to try the properties on.\<close>

definition exampleTree :: node where
  "exampleTree =
     Node [] [(''a'', Node ''a'' [] [''x.txt'']), (''b'', Node ''b'' [] [''z.txt''])] [''README.md'']"

definition exampleDir :: "entry list" where
  "exampleDir =
     [Directory ''a'' (Some [File ''x.txt'', Directory ''build'' (Some [File ''keep.txt''])]),
      Directory ''logs'' (Some [File ''a.log'', File ''b.log'']),
      Symlink ''link'',
      File ''README.md'']"

definition exampleRules :: "compiled list" where
  "exampleRules = rulesOfLines [''build/'', ''!a/build/keep.txt'', ''**/*.log'']"

section \<open>The inclusion decision: verdict of the last matching rule\<close>

lemma isIncluded_loop_append:
  "isIncluded_loop p b (rs @ ss) = isIncluded_loop p (isIncluded_loop p b rs) ss"
  by (induction rs arbitrary: b) simp_all

lemma isIncluded_loop_no_match:
  "\<not> list_ex (\<lambda>r. rx r p) rs \<Longrightarrow> isIncluded_loop p b rs = b"
  by (induction rs arbitrary: b) simp_all

lemma isIncluded_loop_snoc:
  "isIncluded_loop p b (rs @ [r]) = (if rx r p then neg r else isIncluded_loop p b rs)"
  by (simp add: isIncluded_loop_append)

lemma isIncluded_loop_lastMatch:
  "isIncluded_loop p b rs = (case lastMatch p rs of None \<Rightarrow> b | Some r \<Rightarrow> neg r)"
proof (induction rs rule: rev_induct)
  case Nil
  show ?case by (simp add: lastMatch_def)
next
  case (snoc r rs)
  show ?case
  proof (cases "rx r p")
    case True
    then have "lastMatch p (rs @ [r]) = Some r"
      by (simp add: lastMatch_def)
    with True show ?thesis by (simp add: isIncluded_loop_snoc)
  next
    case False
    then have "lastMatch p (rs @ [r]) = lastMatch p rs"
      by (simp add: lastMatch_def)
    with False snoc show ?thesis by (simp add: isIncluded_loop_snoc)
  qed
qed

lemma isIncluded_loop_entries:
  "isIncluded_loop p b (entries r) = (if matchesRule r p then negated r else b)"
proof -
  have "isIncluded_loop p b (map (\<lambda>m. \<lparr>neg = n, rx = m, raw = t\<rparr>) ms) =
        (if list_ex (\<lambda>m. m p) ms then n else b)" for n t ms
    by (induction ms arbitrary: b) simp_all
  then show ?thesis by (simp add: entries_def matchesRule_def)
qed

lemma isIncluded_loop_decide:
  "isIncluded_loop p b (concat (map entries R)) = decide_loop p b R"
  by (induction R arbitrary: b) (simp_all add: isIncluded_loop_append isIncluded_loop_entries)

lemma decide_loop_append:
  "decide_loop p b (R @ S) = decide_loop p (decide_loop p b R) S"
  by (induction R arbitrary: b) simp_all

lemma decide_loop_lastMatchingRule:
  "decide_loop p b R = (case lastMatchingRule p R of None \<Rightarrow> b | Some r \<Rightarrow> negated r)"
proof (induction R rule: rev_induct)
  case Nil
  show ?case by (simp add: lastMatchingRule_def)
next
  case (snoc r R)
  show ?case
  proof (cases "matchesRule r p")
    case True
    then have "lastMatchingRule p (R @ [r]) = Some r"
      by (simp add: lastMatchingRule_def)
    with True show ?thesis by (simp add: decide_loop_append)
  next
    case False
    then have "lastMatchingRule p (R @ [r]) = lastMatchingRule p R"
      by (simp add: lastMatchingRule_def)
    with False snoc show ?thesis by (simp add: decide_loop_append)
  qed
qed

lemma split_no_sep: "c \<notin> set w \<Longrightarrow> split w c = [w]"
  by (induction w) auto

lemma posixPath_normalized: "CHR 0x5C \<notin> set p \<Longrightarrow> posixPath p = p"
  by (simp add: posixPath_def split_no_sep)

text \<open>
  Claim C3. The inclusion decision runs over the whole rule list, in order, with no early
  exit: the verdict for a list extended by one more compiled rule is that rule's negation
  flag when it matches and the verdict of the shorter list otherwise. Hence the verdict
  is the negation flag of the last compiled rule that matches the POSIX form of the path,
  and true when none matches. Read per rule of the specification (a rule with several
  matchers, compiled to entries sharing its flag), the code computes \<open>decide\<close>, whose
  value is the flag of the last rule any of whose matchers matches. The POSIX form of a
  path without backslashes is the path itself.
\<close>

theorem isIncluded_last_matching_rule:
  "isIncluded relPath (rules @ [r]) =
     (if rx r (posixPath relPath) then neg r else isIncluded relPath rules)
   \<and> isIncluded relPath rules =
     (case lastMatch (posixPath relPath) rules of None \<Rightarrow> True | Some m \<Rightarrow> neg m)
   \<and> isIncluded relPath (concat (map entries R)) = decide (posixPath relPath) R
   \<and> decide (posixPath relPath) R =
     (case lastMatchingRule (posixPath relPath) R of None \<Rightarrow> True | Some m \<Rightarrow> negated m)
   \<and> posixPath (filter (\<lambda>c. c \<noteq> CHR 0x5C) relPath) = filter (\<lambda>c. c \<noteq> CHR 0x5C) relPath"
  unfolding isIncluded_def decide_def
  using isIncluded_loop_snoc [of "posixPath relPath" True rules r]
    isIncluded_loop_lastMatch [of "posixPath relPath" True rules]
    isIncluded_loop_decide [of "posixPath relPath" True R]
    decide_loop_lastMatchingRule [of "posixPath relPath" True R]
    posixPath_normalized [of "filter (\<lambda>c. c \<noteq> CHR 0x5C) relPath"]
  by simp

theorem isIncluded_last_matching_rule_witness:
  "isIncluded ''important.log'' (rulesOfLines [''*.log''] @ [\<lparr>neg = True, rx = (\<lambda>p. p = ''important.log''), raw = ''!important.log''\<rparr>]) = True
   \<and> isIncluded ''important.log'' (rulesOfLines [''*.log'']) = False"
proof -
  have v: "isIncluded ''important.log'' (rulesOfLines [''*.log'']) = False"
    by code_simp
  have p: "posixPath ''important.log'' = ''important.log''"
    by code_simp
  from isIncluded_last_matching_rule [of "''important.log''" "rulesOfLines [''*.log'']"
      "\<lparr>neg = True, rx = (\<lambda>p. p = ''important.log''), raw = ''!important.log''\<rparr>" "[]"] v p
  show ?thesis by simp
qed

text \<open>
  Claim C4. When no compiled rule of the Rule Set matches the path, the decision is
  true: the default verdict is to include. The rules are tested on the POSIX form of the
  path, which is the path itself when it has no backslash.
\<close>

theorem isIncluded_default_true:
  "(\<not> list_ex (\<lambda>r. rx r (posixPath p)) R \<longrightarrow> isIncluded p R = True)
   \<and> (CHR 0x5C \<notin> set p \<and> \<not> list_ex (\<lambda>r. rx r p) R \<longrightarrow> isIncluded p R = True)"
  unfolding isIncluded_def
  using posixPath_normalized [of p] by (auto simp: isIncluded_loop_no_match)

theorem isIncluded_default_true_witness:
  "\<not> list_ex (\<lambda>r. rx r (posixPath ''notes.txt'')) (rulesOfLines [''*.log'', ''!important.log''])
   \<and> CHR 0x5C \<notin> set ''notes.txt''
   \<and> \<not> list_ex (\<lambda>r. rx r ''notes.txt'') (rulesOfLines [''*.log'', ''!important.log''])
   \<and> length (rulesOfLines [''*.log'', ''!important.log'']) = 2
   \<and> isIncluded ''notes.txt'' (rulesOfLines [''*.log'', ''!important.log'']) = True"
proof -
  have h: "\<not> list_ex (\<lambda>r. rx r (posixPath ''notes.txt''))
      (rulesOfLines [''*.log'', ''!important.log''])"
    by code_simp
  have n: "CHR 0x5C \<notin> set ''notes.txt''" by simp
  have g: "\<not> list_ex (\<lambda>r. rx r ''notes.txt'') (rulesOfLines [''*.log'', ''!important.log''])"
    by code_simp
  have l: "length (rulesOfLines [''*.log'', ''!important.log'']) = 2"
    by code_simp
  from isIncluded_default_true [of "''notes.txt''" "rulesOfLines [''*.log'', ''!important.log'']"] h
  have "isIncluded ''notes.txt'' (rulesOfLines [''*.log'', ''!important.log'']) = True"
    by blast
  with h n g l show ?thesis by blast
qed

text \<open>
  Claim C5. Appending to a Rule Set the compiled entries of a rule none of whose matchers
  matches the path leaves the decision for that path as it was. The matchers are tested
  on the POSIX form of the path, which is the path itself when it has no backslash.
\<close>

theorem isIncluded_append_non_matching:
  "(\<not> list_ex (\<lambda>m. rx m (posixPath p)) ms \<longrightarrow> isIncluded p (R @ ms) = isIncluded p R)
   \<and> (CHR 0x5C \<notin> set p \<and> \<not> list_ex (\<lambda>m. rx m p) ms \<longrightarrow>
        isIncluded p (R @ ms) = isIncluded p R)"
  unfolding isIncluded_def
  using posixPath_normalized [of p]
  by (auto simp: isIncluded_loop_append isIncluded_loop_no_match)

theorem isIncluded_append_non_matching_witness:
  "\<not> list_ex (\<lambda>m. rx m (posixPath ''debug.log'')) (rulesOfLines [''!important.log''])
   \<and> CHR 0x5C \<notin> set ''debug.log''
   \<and> \<not> list_ex (\<lambda>m. rx m ''debug.log'') (rulesOfLines [''!important.log''])
   \<and> isIncluded ''debug.log'' (rulesOfLines [''*.log''] @ rulesOfLines [''!important.log'']) = False
   \<and> isIncluded ''debug.log'' (rulesOfLines [''*.log'']) = False"
proof -
  have h: "\<not> list_ex (\<lambda>m. rx m (posixPath ''debug.log'')) (rulesOfLines [''!important.log''])"
    by code_simp
  have n: "CHR 0x5C \<notin> set ''debug.log''" by simp
  have g: "\<not> list_ex (\<lambda>m. rx m ''debug.log'') (rulesOfLines [''!important.log''])"
    by code_simp
  have v: "isIncluded ''debug.log'' (rulesOfLines [''*.log'']) = False"
    by code_simp
  from isIncluded_append_non_matching
    [of "''debug.log''" "rulesOfLines [''!important.log'']" "rulesOfLines [''*.log'']"] h v
  have "isIncluded ''debug.log'' (rulesOfLines [''*.log''] @ rulesOfLines [''!important.log'']) = False"
    by simp
  with h n g v show ?thesis by blast
qed

section \<open>Strings\<close>

lemma startsWith_bang: "startsWith rule ''!'' = negatedOf rule"
  by (cases rule) (simp_all add: startsWith_def negatedOf_def)

lemma slice_bang: "(if startsWith rule ''!'' then slice1 rule else rule) = remainderOf rule"
  by (cases rule) (simp_all add: startsWith_def remainderOf_def slice1_def)

lemma patternOf_remainder: "patternOf rule = trim (remainderOf rule)"
  by (simp add: patternOf_def slice_bang)

lemma dropWhile_snoc_keep:
  "\<not> P x \<Longrightarrow> \<exists>zs. dropWhile P (ys @ [x]) = zs @ [x]"
  by (induction ys) auto

lemma trim_nonwhite_head:
  assumes "dropWhile isWhite s = x # xs"
  shows "\<exists>t. trim s = x # t"
proof -
  from assms have nx: "\<not> isWhite x"
    by (metis hd_dropWhile list.sel(1) list.distinct(1))
  from nx dropWhile_snoc_keep [of isWhite x "rev xs"]
  obtain zs where "dropWhile isWhite (rev xs @ [x]) = zs @ [x]" by blast
  with assms show ?thesis by (simp add: trim_def)
qed

lemma trim_empty: "dropWhile isWhite s = [] \<Longrightarrow> trim s = []"
  by (simp only: trim_def rev.simps dropWhile.simps)

lemma ignorable_trim:
  "ignorable line = (trim line = [] \<or> startsWith (trim line) ''#'')"
proof (cases "dropWhile isWhite line")
  case Nil
  then show ?thesis by (simp add: ignorable_def trim_empty del: dropWhile_eq_Nil_conv)
next
  case (Cons x xs)
  from trim_nonwhite_head [OF Cons] obtain t where "trim line = x # t" by blast
  with Cons show ?thesis by (simp add: ignorable_def startsWith_def)
qed

lemma trim_decompose:
  "\<exists>a b. s = a @ trim s @ b \<and> list_all isWhite a \<and> list_all isWhite b"
proof -
  let ?u = "dropWhile isWhite s"
  have 1: "s = takeWhile isWhite s @ ?u" by simp
  have "?u = rev (takeWhile isWhite (rev ?u) @ dropWhile isWhite (rev ?u))"
    by (simp only: takeWhile_dropWhile_id rev_rev_ident)
  then have 3: "?u = trim s @ rev (takeWhile isWhite (rev ?u))"
    by (simp only: rev_append trim_def)
  have a: "list_all isWhite (takeWhile isWhite s)"
    by (simp add: list_all_iff) (meson set_takeWhileD)
  have b: "list_all isWhite (rev (takeWhile isWhite (rev ?u)))"
    by (simp add: list_all_iff) (meson set_takeWhileD)
  from 1 3 have "s = takeWhile isWhite s @ trim s @ rev (takeWhile isWhite (rev ?u))"
    by simp
  with a b show ?thesis by blast
qed

lemma trim_no_leading: "takeWhile isWhite (trim s) = []"
proof (cases "dropWhile isWhite s")
  case Nil
  then show ?thesis by (simp add: trim_empty del: dropWhile_eq_Nil_conv)
next
  case (Cons x xs)
  then have nx: "\<not> isWhite x"
    by (metis hd_dropWhile list.sel(1) list.distinct(1))
  from trim_nonwhite_head [OF Cons] obtain t where "trim s = x # t" by blast
  with nx show ?thesis by simp
qed

lemma trim_no_trailing: "takeWhile isWhite (rev (trim s)) = []"
proof -
  have "rev (trim s) = dropWhile isWhite (rev (dropWhile isWhite s))"
    by (simp add: trim_def)
  moreover have "takeWhile isWhite (dropWhile isWhite xs) = []" for xs
    by (induction xs) simp_all
  ultimately show ?thesis by simp
qed

lemma ignorable_trimmed: "ignorable (trim line) = ignorable line"
proof -
  have "dropWhile isWhite (trim line) = trim line"
    using takeWhile_dropWhile_id [of isWhite "trim line"] by (simp add: trim_no_leading)
  then have "ignorable (trim line) = (trim line = [] \<or> startsWith (trim line) ''#'')"
    by (cases "trim line") (simp_all add: ignorable_def startsWith_def)
  then show ?thesis by (simp add: ignorable_trim)
qed

section \<open>Compiling and loading rules\<close>

lemma mapE_length: "mapE f xs = Inr ys \<Longrightarrow> length ys = length xs"
  by (induction xs arbitrary: ys) (auto split: sum.splits)


lemma expandGlobRule_globsOf:
  "expandGlobRule toRegExp rule =
     (case mapE toRegExp (globsOf (patternOf rule)) of
        Inl e \<Rightarrow> Inl e
      | Inr ms \<Rightarrow> Inr (map (\<lambda>m. \<lparr>neg = negatedOf rule, rx = m, raw = rule\<rparr>) ms))"
  by (simp add: expandGlobRule_def patternOf_def globsOf_def Let_def startsWith_bang
      split: sum.splits)

lemma pushLines_filter:
  "pushLines rules ls = rules @ map trim (filter (\<lambda>l. \<not> ignorable l) ls)"
  by (induction ls arbitrary: rules) (simp_all add: ignorable_trim Let_def)

lemma mapE_compileRule_raw:
  "mapE (compileRule toRegExp) rs = Inr cs \<Longrightarrow> map raw cs = rs"
  by (induction rs arbitrary: cs) (auto simp: compileRule_def Let_def split: sum.splits)

lemma loadExcludeRules_ruleLines:
  "loadExcludeRules toRegExp s noGlobal rootDir =
     mapE (compileRule toRegExp)
       (map trim (filter (\<lambda>l. \<not> ignorable l) (ruleLines s noGlobal rootDir)))"
  by (simp add: loadExcludeRules_def ruleLines_def Let_def pushLines_filter)


text \<open>
  Claim C2, as the code has it. When the pattern of a rule ends with \<open>/\<close>,
  \<open>expandGlobRule\<close> compiles exactly the four globs \<open>**/dir/**\<close>, \<open>dir/**\<close>, \<open>**/dir\<close> and
  \<open>dir\<close>, in this order, and every compiled object carries the rule's negation flag (when
  a glob does not compile, the first failure is the result). With the glob semantics of
  the specification, the rule \<open>build/\<close> compiles to four matchers, and each of the paths
  \<open>build\<close>, \<open>build/out.txt\<close>, \<open>a/build\<close> and \<open>a/build/out.txt\<close> is matched by one of them
  and excluded.
\<close>

theorem expandGlobRule_directory_shorthand:
  "(endsWith (patternOf rule) ''/'' \<longrightarrow>
      expandGlobRule toRegExp rule =
        (case mapE toRegExp [''**/'' @ patternOf rule @ ''**'', patternOf rule @ ''**'',
                             ''**/'' @ slice0m1 (patternOf rule), slice0m1 (patternOf rule)] of
           Inl e \<Rightarrow> Inl e
         | Inr ms \<Rightarrow> Inr (map (\<lambda>m. \<lparr>neg = startsWith rule ''!'', rx = m, raw = rule\<rparr>) ms))
      \<and> (\<forall>cs. expandGlobRule toRegExp rule = Inr cs \<longrightarrow>
            length cs = 4 \<and> list_all (\<lambda>c. neg c = startsWith rule ''!'') cs))
   \<and> (\<exists>cs. expandGlobRule globToRegExp ''build/'' = Inr cs \<and> length cs = 4
         \<and> list_all (\<lambda>c. \<not> neg c) cs
         \<and> list_all (\<lambda>p. list_ex (\<lambda>c. rx c p) cs \<and> \<not> isIncluded p cs)
              [''build'', ''build/out.txt'', ''a/build'', ''a/build/out.txt''])"
proof -
  have gen: "expandGlobRule toRegExp rule =
        (case mapE toRegExp [''**/'' @ patternOf rule @ ''**'', patternOf rule @ ''**'',
                             ''**/'' @ slice0m1 (patternOf rule), slice0m1 (patternOf rule)] of
           Inl e \<Rightarrow> Inl e
         | Inr ms \<Rightarrow> Inr (map (\<lambda>m. \<lparr>neg = startsWith rule ''!'', rx = m, raw = rule\<rparr>) ms))"
    if "endsWith (patternOf rule) ''/''"
    using that by (simp add: expandGlobRule_globsOf globsOf_def startsWith_bang cong: sum.case_cong)
  have four: "length cs = 4 \<and> list_all (\<lambda>c. neg c = startsWith rule ''!'') cs"
    if d: "endsWith (patternOf rule) ''/''" and r: "expandGlobRule toRegExp rule = Inr cs" for cs
  proof -
    from gen [OF d] r obtain ms where
      ms: "mapE toRegExp [''**/'' @ patternOf rule @ ''**'', patternOf rule @ ''**'',
                             ''**/'' @ slice0m1 (patternOf rule), slice0m1 (patternOf rule)] = Inr ms"
      and cs: "cs = map (\<lambda>m. \<lparr>neg = startsWith rule ''!'', rx = m, raw = rule\<rparr>) ms"
      by (auto split: sum.splits)
    from mapE_length [OF ms] cs show ?thesis by (simp add: list_all_iff)
  qed
  have build: "case expandGlobRule globToRegExp ''build/'' of
      Inl e \<Rightarrow> False
    | Inr cs \<Rightarrow> length cs = 4 \<and> list_all (\<lambda>c. \<not> neg c) cs
         \<and> list_all (\<lambda>p. list_ex (\<lambda>c. rx c p) cs \<and> \<not> isIncluded p cs)
              [''build'', ''build/out.txt'', ''a/build'', ''a/build/out.txt'']"
    by code_simp
  then have ex: "\<exists>cs. expandGlobRule globToRegExp ''build/'' = Inr cs \<and> length cs = 4
         \<and> list_all (\<lambda>c. \<not> neg c) cs
         \<and> list_all (\<lambda>p. list_ex (\<lambda>c. rx c p) cs \<and> \<not> isIncluded p cs)
              [''build'', ''build/out.txt'', ''a/build'', ''a/build/out.txt'']"
    by (cases "expandGlobRule globToRegExp ''build/''") simp_all
  from gen four ex show ?thesis by blast
qed

theorem expandGlobRule_directory_shorthand_witness:
  "endsWith (patternOf ''! .git/ '') ''/''
   \<and> (case expandGlobRule globToRegExp ''! .git/ '' of
         Inl e \<Rightarrow> False
       | Inr cs \<Rightarrow> length cs = 4 \<and> list_all (\<lambda>c. neg c = True) cs)"
proof -
  have h: "endsWith (patternOf ''! .git/ '') ''/''" by code_simp
  have s: "startsWith ''! .git/ '' ''!'' = True" by code_simp
  have e: "case expandGlobRule globToRegExp ''! .git/ '' of Inl e \<Rightarrow> False | Inr cs \<Rightarrow> True"
    by code_simp
  then obtain cs where cs: "expandGlobRule globToRegExp ''! .git/ '' = Inr cs"
    by (cases "expandGlobRule globToRegExp ''! .git/ ''") simp_all
  from expandGlobRule_directory_shorthand [of "''! .git/ ''" globToRegExp] h cs
  have "length cs = 4 \<and> list_all (\<lambda>c. neg c = startsWith ''! .git/ '' ''!'') cs" by blast
  with h cs s show ?thesis by simp
qed

text \<open>
  The claim C2 as stated, of compilation in general, fails on the compilation written
  inside \<open>loadExcludeRules\<close>: a rule file with the one line \<open>build/\<close> gives a Rule Set of
  one compiled rule, under which \<open>build/out.txt\<close>, \<open>a/build\<close> and \<open>a/build/out.txt\<close> are
  included, and the tree keeps the directory \<open>a/build\<close>.
\<close>

theorem loader_compiles_one_matcher:
  "\<not> isl (loadExcludeRules globToRegExp (sysWithLocal (Inr ''build/'')) True ''.'')
   \<and> endsWith (patternOf ''build/'') ''/''
   \<and> map raw (loaderRules ''build/'') = [''build/'']
   \<and> length (loaderRules ''build/'') = 1
   \<and> isIncluded ''build/out.txt'' (loaderRules ''build/'')
   \<and> isIncluded ''a/build'' (loaderRules ''build/'')
   \<and> isIncluded ''a/build/out.txt'' (loaderRules ''build/'')
   \<and> buildTree
        (Some [Directory ''a'' (Some [File ''x.txt'', Directory ''build'' (Some [File ''y.txt''])]),
               File ''README.md''])
        (loaderRules ''build/'') =
       Inr (Node [] [(''a'', Node ''a'' [(''build'', Node ''build'' [] [''y.txt''])] [''x.txt''])]
              [''README.md''])"
  by code_simp

text \<open>
  The compilation written inside \<open>loadExcludeRules\<close> (in the part of the file that carries
  the older version number) takes the flag from a leading \<open>!\<close> and compiles the remainder,
  one matcher per line.
\<close>

lemma compileRule_remainder:
  "compileRule toRegExp rule =
     (case toRegExp (remainderOf rule) of
        Inl e \<Rightarrow> Inl e
      | Inr m \<Rightarrow> Inr \<lparr>neg = negatedOf rule, rx = m, raw = rule\<rparr>)"
  by (cases rule)
    (simp_all add: compileRule_def Let_def startsWith_def slice1_def remainderOf_def negatedOf_def
       split: sum.splits)

text \<open>
  Claim C8, as the code has it. Compilation, in \<open>expandGlobRule\<close> and inside
  \<open>loadExcludeRules\<close> alike, takes the negation flag from a leading \<open>!\<close> and strips that
  one character only (of \<open>!!x\<close> the remainder is \<open>!x\<close>). In \<open>expandGlobRule\<close> the globs
  compiled are those of the pattern, and the pattern is the remainder without the white
  space around it: the remainder is the pattern between two runs of white space, and the
  pattern neither starts nor ends with white space.
\<close>

theorem expandGlobRule_negation_and_pattern:
  "expandGlobRule toRegExp rule =
     (case mapE toRegExp (globsOf (patternOf rule)) of
        Inl e \<Rightarrow> Inl e
      | Inr ms \<Rightarrow> Inr (map (\<lambda>m. \<lparr>neg = negatedOf rule, rx = m, raw = rule\<rparr>) ms))
   \<and> (case compileRule toRegExp rule of
         Inl e \<Rightarrow> True
       | Inr c \<Rightarrow> neg c = negatedOf rule \<and> raw c = rule)
   \<and> negatedOf (CHR ''!'' # r) \<and> remainderOf (CHR ''!'' # r) = r
   \<and> (\<exists>a b. remainderOf rule = a @ patternOf rule @ b \<and> list_all isWhite a \<and> list_all isWhite b)
   \<and> takeWhile isWhite (patternOf rule) = []
   \<and> takeWhile isWhite (rev (patternOf rule)) = []"
proof -
  have flag: "case compileRule toRegExp rule of
         Inl e \<Rightarrow> True
       | Inr c \<Rightarrow> neg c = negatedOf rule \<and> raw c = rule"
    by (simp add: compileRule_remainder split: sum.splits)
  from flag expandGlobRule_globsOf [of toRegExp rule] trim_decompose [of "remainderOf rule"]
    trim_no_leading [of "remainderOf rule"] trim_no_trailing [of "remainderOf rule"]
  show ?thesis
    by (simp add: patternOf_remainder negatedOf_def remainderOf_def)
qed

theorem expandGlobRule_negation_and_pattern_witness:
  "negatedOf ''!  docs/*.md''
   \<and> remainderOf ''!  docs/*.md'' = ''  docs/*.md''
   \<and> patternOf ''!  docs/*.md'' = ''docs/*.md''
   \<and> expandGlobRule globToRegExp ''!  docs/*.md'' =
       (case mapE globToRegExp [''docs/*.md''] of
          Inl e \<Rightarrow> Inl e
        | Inr ms \<Rightarrow> Inr (map (\<lambda>m. \<lparr>neg = True, rx = m, raw = ''!  docs/*.md''\<rparr>) ms))"
proof -
  have n: "negatedOf ''!  docs/*.md''" by code_simp
  have r: "remainderOf ''!  docs/*.md'' = ''  docs/*.md''" by code_simp
  have p: "patternOf ''!  docs/*.md'' = ''docs/*.md''" by code_simp
  have g: "globsOf ''docs/*.md'' = [''docs/*.md'']" by code_simp
  have t: "negatedOf ''!  docs/*.md'' = True" using n by simp
  from expandGlobRule_negation_and_pattern [of globToRegExp "''!  docs/*.md''"]
  have "expandGlobRule globToRegExp ''!  docs/*.md'' =
       (case mapE globToRegExp (globsOf (patternOf ''!  docs/*.md'')) of
          Inl e \<Rightarrow> Inl e
        | Inr ms \<Rightarrow>
            Inr (map (\<lambda>m. \<lparr>neg = negatedOf ''!  docs/*.md'', rx = m, raw = ''!  docs/*.md''\<rparr>) ms))"
    by blast
  then have "expandGlobRule globToRegExp ''!  docs/*.md'' =
       (case mapE globToRegExp [''docs/*.md''] of
          Inl e \<Rightarrow> Inl e
        | Inr ms \<Rightarrow> Inr (map (\<lambda>m. \<lparr>neg = True, rx = m, raw = ''!  docs/*.md''\<rparr>) ms))"
    by (simp only: p g t)
  with n r p show ?thesis by blast
qed

text \<open>
  The claim C8 as stated, of every compilation, fails on the compilation written inside
  \<open>loadExcludeRules\<close>: of the line \<open>!  docs/*.md\<close> it compiles the remainder with its two
  leading spaces, not the trimmed \<open>docs/*.md\<close>. So in a rule file with the lines
  \<open>docs/*.md\<close> and \<open>!  docs/*.md\<close> the second rule does not match \<open>docs/a.md\<close>, which stays
  excluded, while with \<open>expandGlobRule\<close> it is included again.
\<close>

theorem loader_compiles_untrimmed_remainder:
  "\<not> isl (compileRule literalGlob ''!  docs/*.md'')
   \<and> rx (projr (compileRule literalGlob ''!  docs/*.md'')) ''  docs/*.md''
   \<and> \<not> rx (projr (compileRule literalGlob ''!  docs/*.md'')) ''docs/*.md''
   \<and> trim ''  docs/*.md'' = ''docs/*.md''
   \<and> map raw (loaderRules ''docs/*.md\<newline>!  docs/*.md'') = [''docs/*.md'', ''!  docs/*.md'']
   \<and> \<not> isIncluded ''docs/a.md'' (loaderRules ''docs/*.md\<newline>!  docs/*.md'')
   \<and> isIncluded ''docs/a.md'' (rulesOfLines [''docs/*.md'', ''!  docs/*.md''])"
  by code_simp

text \<open>
  Claim C7. The Rule Set that \<open>loadExcludeRules\<close> returns is compiled from the lines that
  are not ignorable (blank after trimming, or \<open>#\<close> as first character that is not white
  space) and from nothing else: no compiled rule has an ignorable raw text, and two
  environments whose rule files differ in ignorable lines only give the same Rule Set,
  hence the same inclusion decisions.
\<close>

theorem loadExcludeRules_ignores_comments_and_blanks:
  "loadExcludeRules toRegExp s noGlobal rootDir =
     mapE (compileRule toRegExp)
       (map trim (filter (\<lambda>l. \<not> ignorable l) (ruleLines s noGlobal rootDir)))
   \<and> (\<forall>cs. loadExcludeRules toRegExp s noGlobal rootDir = Inr cs \<longrightarrow>
         list_all (\<lambda>c. \<not> ignorable (raw c)) cs)
   \<and> (filter (\<lambda>l. \<not> ignorable l) (ruleLines s noGlobal rootDir) =
        filter (\<lambda>l. \<not> ignorable l) (ruleLines s' noGlobal' rootDir') \<longrightarrow>
      loadExcludeRules toRegExp s noGlobal rootDir =
        loadExcludeRules toRegExp s' noGlobal' rootDir')"
proof -
  have raws: "list_all (\<lambda>c. \<not> ignorable (raw c)) cs"
    if "loadExcludeRules toRegExp s noGlobal rootDir = Inr cs" for cs
  proof -
    from that have "map raw cs =
        map trim (filter (\<lambda>l. \<not> ignorable l) (ruleLines s noGlobal rootDir))"
      by (simp add: loadExcludeRules_ruleLines mapE_compileRule_raw)
    then have "set (map raw cs) \<subseteq> {t. \<not> ignorable t}"
      by (auto simp: ignorable_trimmed)
    then show ?thesis by (auto simp: list_all_iff)
  qed
  show ?thesis
    using raws by (simp add: loadExcludeRules_ruleLines)
qed

theorem loadExcludeRules_ignores_comments_and_blanks_witness:
  "ruleLines (sysWithLocal (Inr ''# note\<newline>\<newline>build\<newline>   # indented\<newline>*.log'')) True ''.'' =
      [''# note'', [], ''build'', ''   # indented'', ''*.log'']
   \<and> ruleLines (sysWithLocal (Inr ''build\<newline>*.log'')) True ''.'' = [''build'', ''*.log'']
   \<and> loadExcludeRules globToRegExp
        (sysWithLocal (Inr ''# note\<newline>\<newline>build\<newline>   # indented\<newline>*.log'')) True ''.'' =
     loadExcludeRules globToRegExp (sysWithLocal (Inr ''build\<newline>*.log'')) True ''.''"
proof -
  have a: "ruleLines (sysWithLocal (Inr ''# note\<newline>\<newline>build\<newline>   # indented\<newline>*.log'')) True ''.'' =
      [''# note'', [], ''build'', ''   # indented'', ''*.log'']"
    by code_simp
  have b: "ruleLines (sysWithLocal (Inr ''build\<newline>*.log'')) True ''.'' = [''build'', ''*.log'']"
    by code_simp
  have f: "filter (\<lambda>l. \<not> ignorable l) [''# note'', [], ''build'', ''   # indented'', ''*.log''] =
      filter (\<lambda>l. \<not> ignorable l) [''build'', ''*.log'']"
    by code_simp
  have g: "filter (\<lambda>l. \<not> ignorable l)
        (ruleLines (sysWithLocal (Inr ''# note\<newline>\<newline>build\<newline>   # indented\<newline>*.log'')) True ''.'') =
      filter (\<lambda>l. \<not> ignorable l) (ruleLines (sysWithLocal (Inr ''build\<newline>*.log'')) True ''.'')"
    unfolding a b by (rule f)
  from loadExcludeRules_ignores_comments_and_blanks
    [of globToRegExp "sysWithLocal (Inr ''# note\<newline>\<newline>build\<newline>   # indented\<newline>*.log'')" True "''.''"
       "sysWithLocal (Inr ''build\<newline>*.log'')" True "''.''"] g
  have "loadExcludeRules globToRegExp
        (sysWithLocal (Inr ''# note\<newline>\<newline>build\<newline>   # indented\<newline>*.log'')) True ''.'' =
     loadExcludeRules globToRegExp (sysWithLocal (Inr ''build\<newline>*.log'')) True ''.''"
    by blast
  with a b show ?thesis by blast
qed





section \<open>Maps as association lists\<close>

lemma mapGet_mapSet:
  "mapGet (mapSet m k v) k' = (if k' = k then Some v else mapGet m k')"
  by (induction m) (auto simp: mapGet_def)

lemma keys_mapSet:
  "map fst (mapSet m k v) = (if mapHas m k then map fst m else map fst m @ [k])"
  by (induction m) (auto simp: mapHas_def)

lemma mapSet_mapSet: "mapSet (mapSet m k v) k w = mapSet m k w"
  by (induction m) auto

lemma set_mapSet: "set (mapSet m k v) \<subseteq> insert (k, v) (set m)"
  by (induction m) (auto split: if_splits)

lemma mapSet_mem: "(k, v) \<in> set (mapSet m k v)"
  by (induction m) auto

lemma mapGet_mem: "mapGet m k = Some v \<Longrightarrow> (k, v) \<in> set m"
  by (simp add: mapGet_def map_of_SomeD)

section \<open>Inserting a path\<close>

text \<open>
  The branch of \<open>insertPath\<close> for a child that \<open>get\<close> does not find is never taken: the
  child is there, found or just added, and the result stores the changed child.
\<close>

lemma insertPath_step:
  "insertPath root (dir # r # rest) =
     Node (name root) (mapSet (children root) dir (insertPath (childAt root dir) (r # rest)))
       (files root)"
proof (cases "mapGet (children root) dir")
  case None
  then have "\<not> mapHas (children root) dir" by (simp add: mapHas_def mapGet_def)
  with None show ?thesis
    by (simp add: childAt_def mapGet_mapSet mapSet_mapSet)
next
  case (Some c)
  then have "mapHas (children root) dir" by (simp add: mapHas_def mapGet_def)
  with Some show ?thesis by (simp add: childAt_def)
qed

declare insertPath.simps(3) [simp del]

lemma lookup_childAt:
  "lookup (childAt root dir) ds =
     (case mapGet (children root) dir of
        None \<Rightarrow> (if ds = [] then Some (createNode dir) else None)
      | Some c \<Rightarrow> lookup c ds)"
  by (cases ds) (simp_all add: childAt_def createNode_def mapGet_def split: option.splits)

lemma lookup_insertPath_off:
  "\<not> prefix q (butlast parts) \<Longrightarrow> lookup (insertPath root parts) q = lookup root q"
proof (induction parts arbitrary: root q)
  case Nil
  show ?case by simp
next
  case (Cons a parts)
  show ?case
  proof (cases parts)
    case Nil
    with Cons.prems show ?thesis by (cases q) simp_all
  next
    case (Cons r rest)
    from Cons.prems obtain d ds where q: "q = d # ds" by (cases q) auto
    show ?thesis
    proof (cases "d = a")
      case False
      with q Cons show ?thesis by (simp add: insertPath_step mapGet_mapSet)
    next
      case True
      with q Cons Cons.prems have np: "\<not> prefix ds (butlast parts)" by simp
      then have "ds \<noteq> []" by auto
      with True q Cons Cons.IH [OF np] show ?thesis
        by (simp add: insertPath_step mapGet_mapSet lookup_childAt split: option.splits)
    qed
  qed
qed

lemma lookup_insertPath_on:
  "lookup root q = Some n \<Longrightarrow>
   \<exists>n'. lookup (insertPath root parts) q = Some n' \<and> name n' = name n
        \<and> prefix (files n) (files n')
        \<and> prefix (map fst (children n)) (map fst (children n'))"
proof (induction parts arbitrary: root q n)
  case Nil
  then show ?case by simp
next
  case (Cons a parts)
  show ?case
  proof (cases parts)
    case Nil
    with Cons.prems show ?thesis by (cases q) auto
  next
    case (Cons r rest)
    show ?thesis
    proof (cases q)
      case Nil
      with Cons Cons.prems show ?thesis
        by (auto simp: insertPath_step keys_mapSet)
    next
      case q: (Cons d ds)
      show ?thesis
      proof (cases "d = a")
        case False
        with q Cons Cons.prems show ?thesis
          by (simp add: insertPath_step mapGet_mapSet)
      next
        case True
        with q Cons.prems obtain c where c: "mapGet (children root) a = Some c"
          and l: "lookup c ds = Some n"
          by (auto split: option.splits)
        from c have "childAt root a = c" by (simp add: childAt_def)
        with Cons.IH [OF l] True q Cons show ?thesis
          by (simp add: insertPath_step mapGet_mapSet)
      qed
    qed
  qed
qed

lemma lookup_insertPath_files:
  "parts \<noteq> [] \<Longrightarrow> lookup (insertPath root parts) q = Some n' \<Longrightarrow> f \<in> set (files n') \<Longrightarrow>
   (\<exists>n. lookup root q = Some n \<and> f \<in> set (files n)) \<or> (q = butlast parts \<and> f = last parts)"
proof (induction parts arbitrary: root q)
  case Nil
  then show ?case by simp
next
  case (Cons a parts)
  show ?case
  proof (cases parts)
    case Nil
    with Cons.prems show ?thesis by (cases q) auto
  next
    case (Cons r rest)
    show ?thesis
    proof (cases q)
      case Nil
      with Cons Cons.prems show ?thesis by (auto simp: insertPath_step)
    next
      case q: (Cons d ds)
      show ?thesis
      proof (cases "d = a")
        case False
        with q Cons Cons.prems show ?thesis
          by (simp add: insertPath_step mapGet_mapSet)
      next
        case True
        with q Cons Cons.prems
        have l: "lookup (insertPath (childAt root a) parts) ds = Some n'"
          by (simp add: insertPath_step mapGet_mapSet)
        from Cons have "parts \<noteq> []" by simp
        from Cons.IH [OF this l Cons.prems(3)]
        have "(\<exists>n. lookup (childAt root a) ds = Some n \<and> f \<in> set (files n))
              \<or> (ds = butlast parts \<and> f = last parts)" .
        then show ?thesis
        proof
          assume "\<exists>n. lookup (childAt root a) ds = Some n \<and> f \<in> set (files n)"
          then obtain n where n: "lookup (childAt root a) ds = Some n" and f: "f \<in> set (files n)"
            by blast
          from n f have "\<exists>c. mapGet (children root) a = Some c \<and> lookup c ds = Some n"
            by (auto simp: lookup_childAt createNode_def split: option.splits if_splits)
          with f True q show ?thesis by auto
        next
          assume "ds = butlast parts \<and> f = last parts"
          with True q Cons show ?thesis by simp
        qed
      qed
    qed
  qed
qed

lemma hasFile_insertPath:
  assumes "parts \<noteq> []" and "hasFile (insertPath root parts) p"
  shows "hasFile root p \<or> p = parts"
proof -
  from assms(2) obtain n' where p: "p \<noteq> []"
    and l: "lookup (insertPath root parts) (butlast p) = Some n'"
    and f: "last p \<in> set (files n')"
    by (auto simp: hasFile_def split: option.splits)
  from lookup_insertPath_files [OF assms(1) l f]
  show ?thesis
  proof
    assume "\<exists>n. lookup root (butlast p) = Some n \<and> last p \<in> set (files n)"
    with p show ?thesis by (auto simp: hasFile_def)
  next
    assume "butlast p = butlast parts \<and> last p = last parts"
    with p assms(1) have "p = parts"
      by (metis append_butlast_last_id)
    then show ?thesis by simp
  qed
qed

lemma hasNode_insertPath:
  assumes "hasNode (insertPath root parts) p"
  shows "hasNode root p \<or> prefix p (butlast parts)"
proof (cases "prefix p (butlast parts)")
  case True
  then show ?thesis by simp
next
  case False
  from lookup_insertPath_off [OF False, of root] assms show ?thesis
    by (simp add: hasNode_def)
qed

lemma prefix_butlast: "prefix p (butlast parts) \<Longrightarrow> prefix p parts"
  by (metis prefix_order.trans prefixeq_butlast)

lemma inTree_insertPath:
  assumes "parts \<noteq> []" and "inTree (insertPath root parts) p"
  shows "inTree root p \<or> (p \<noteq> [] \<and> prefix p parts)"
  using assms hasFile_insertPath [of parts root p] hasNode_insertPath [of root parts p]
  by (auto simp: inTree_def hasFile_def hasNode_def dest: prefix_butlast)

lemma inTree_foldl:
  "\<forall>ps \<in> set pss. ps \<noteq> [] \<Longrightarrow> inTree (foldl insertPath root pss) p \<Longrightarrow>
   inTree root p \<or> (\<exists>ps \<in> set pss. p \<noteq> [] \<and> prefix p ps)"
proof (induction pss arbitrary: root)
  case Nil
  then show ?case by simp
next
  case (Cons a pss)
  from Cons.IH [of "insertPath root a"] Cons.prems
  have "inTree (insertPath root a) p \<or> (\<exists>ps \<in> set pss. p \<noteq> [] \<and> prefix p ps)" by simp
  with inTree_insertPath [of a root p] Cons.prems show ?case by auto
qed

lemma inTree_createNode: "\<not> inTree (createNode nm) p"
  by (cases p rule: rev_cases; cases "butlast p")
     (auto simp: inTree_def hasFile_def hasNode_def createNode_def mapGet_def)


section \<open>Laziness\<close>

lemma nonEmpty_insertPath: "parts \<noteq> [] \<Longrightarrow> nonEmpty (insertPath root parts)"
proof (induction parts arbitrary: root)
  case Nil
  then show ?case by simp
next
  case (Cons a parts)
  show ?case
  proof (cases parts)
    case Nil
    then show ?thesis by (cases root) simp
  next
    case (Cons r rest)
    with Cons.IH [of "childAt root a"]
    have "nonEmpty (insertPath (childAt root a) parts)" by simp
    with mapSet_mem [of a "insertPath (childAt root a) parts" "children root"] Cons
    show ?thesis
      by (cases root) (auto simp: insertPath_step list_ex_iff intro!: bexI)
  qed
qed

lemma allNonEmpty_childAt: "allNonEmpty root \<Longrightarrow> allNonEmpty (childAt root dir)"
  by (cases root)
     (auto simp: childAt_def createNode_def list_all_iff dest!: mapGet_mem split: option.splits)

lemma allNonEmpty_insertPath: "allNonEmpty root \<Longrightarrow> allNonEmpty (insertPath root parts)"
proof (induction parts arbitrary: root)
  case Nil
  then show ?case by simp
next
  case (Cons a parts)
  show ?case
  proof (cases parts)
    case Nil
    with Cons.prems show ?thesis by (cases root) simp
  next
    case (Cons r rest)
    let ?x = "insertPath (childAt root a) parts"
    from Cons.IH [OF allNonEmpty_childAt [OF Cons.prems]] have 1: "allNonEmpty ?x" .
    from Cons have 2: "nonEmpty ?x" by (simp add: nonEmpty_insertPath)
    from 1 2 Cons.prems set_mapSet [of "children root" a ?x] Cons show ?thesis
      by (cases root) (auto simp: insertPath_step list_all_iff)
  qed
qed

lemma split_not_Nil: "split s c \<noteq> []"
  by (induction s) (auto split: list.splits)

lemma allNonEmpty_walkDir:
  "walkDir rules es relDir root = Inr root' \<Longrightarrow> allNonEmpty root \<Longrightarrow> allNonEmpty root'"
proof (induction rules es relDir root arbitrary: root' rule: walkDir.induct)
  case (1 compiledRules relDir root)
  then show ?case by simp
next
  case (2 compiledRules entry es relDir root)
  then show ?case
    by (auto simp: Let_def allNonEmpty_insertPath
        split: if_splits entry.splits option.splits sum.splits)
qed

section \<open>The traversal inserts the kept files\<close>

lemma walkDir_keptFiles:
  "walkDir rules es relDir root = Inr root' \<Longrightarrow>
   root' = foldl insertPath root (map (\<lambda>r. split r (CHR ''/'')) (keptFiles rules es relDir))"
proof (induction rules es relDir root arbitrary: root' rule: walkDir.induct)
  case (1 compiledRules relDir root)
  then show ?case by simp
next
  case (2 compiledRules entry es relDir root)
  then show ?case
    by (cases entry) (auto simp: Let_def split: if_splits option.splits sum.splits)
qed

section \<open>Paths\<close>

lemma join_snoc: "ds \<noteq> [] \<Longrightarrow> join (ds @ [n]) sep = join ds sep @ sep @ n"
  by (induction ds sep rule: join.induct) simp_all

lemma join_not_Nil: "ds \<noteq> [] \<Longrightarrow> hd ds \<noteq> [] \<Longrightarrow> join ds sep \<noteq> []"
  by (induction ds sep rule: join.induct) simp_all

lemma split_append_sep: "c \<notin> set w \<Longrightarrow> split (w @ c # rest) c = w # split rest c"
  by (induction w) auto

lemma split_join:
  "ns \<noteq> [] \<Longrightarrow> \<forall>n \<in> set ns. CHR ''/'' \<notin> set n \<Longrightarrow> split (join ns ''/'') (CHR ''/'') = ns"
proof (induction ns "''/''" rule: join.induct)
  case 1
  then show ?case by simp
next
  case (2 w)
  then show ?case by (simp add: split_no_sep)
next
  case (3 w v ws)
  then show ?case by (simp add: split_append_sep)
qed

lemma relOf_join:
  assumes "list_all wfName ds"
  shows "relOf (join ds ''/'') e = join (ds @ [entryName e]) ''/''"
proof (cases ds)
  case Nil
  then show ?thesis by (simp add: relOf_def)
next
  case (Cons d ds')
  with assms have "join ds ''/'' \<noteq> []"
    using join_not_Nil [of ds "''/''"] by (simp add: wfName_def)
  with Cons show ?thesis
    using join_snoc [of ds "entryName e" "''/''"] by (simp add: relOf_def posix_join_def)
qed

lemma keptFiles_included:
  "list_all wfEntry es \<Longrightarrow> list_all wfName ds \<Longrightarrow> relDir = join ds ''/'' \<Longrightarrow>
   r \<in> set (keptFiles rules es relDir) \<Longrightarrow>
   \<exists>ns. ns \<noteq> [] \<and> list_all wfName ns \<and> r = join (ds @ ns) ''/''
        \<and> (\<forall>k. 1 \<le> k \<and> k \<le> length ns \<longrightarrow> isIncluded (join (ds @ take k ns) ''/'') rules)"
proof (induction rules es relDir arbitrary: ds rule: keptFiles.induct)
  case (1 compiledRules relDir)
  then show ?case by simp
next
  case (2 compiledRules n es relDir)
  show ?case
  proof (cases "r = relOf relDir (File n) \<and> isIncluded (relOf relDir (File n)) compiledRules")
    case True
    with "2.prems" have "r = join (ds @ [n]) ''/''" and "isIncluded (join (ds @ [n]) ''/'') compiledRules"
      by (simp_all add: relOf_join)
    moreover from "2.prems" have "wfName n" by simp
    ultimately have "[n] \<noteq> [] \<and> list_all wfName [n] \<and> r = join (ds @ [n]) ''/''
        \<and> (\<forall>k. 1 \<le> k \<and> k \<le> length [n] \<longrightarrow> isIncluded (join (ds @ take k [n]) ''/'') compiledRules)"
      by (auto simp: le_Suc_eq)
    then show ?thesis by blast
  next
    case False
    with "2.prems" have "r \<in> set (keptFiles compiledRules es relDir)"
      by (auto split: if_splits)
    with "2.IH" "2.prems" show ?thesis by (auto split: if_splits)
  qed
next
  case (3 compiledRules n l es relDir)
  let ?rel = "relOf relDir (Directory n l)"
  show ?case
  proof (cases "isIncluded ?rel compiledRules \<and>
      (\<exists>sub. l = Some sub \<and> r \<in> set (keptFiles compiledRules sub ?rel))")
    case True
    then obtain sub where inc: "isIncluded ?rel compiledRules" and l: "l = Some sub"
      and r: "r \<in> set (keptFiles compiledRules sub ?rel)" by blast
    from "3.prems" l have wn: "wfName n" and ws: "list_all wfEntry sub" by simp_all
    from "3.prems" have rel: "?rel = join (ds @ [n]) ''/''" by (simp add: relOf_join)
    from wn "3.prems" have wds: "list_all wfName (ds @ [n])" by simp
    from "3.IH"(1) [OF inc l ws wds rel r]
    obtain ns where ns: "ns \<noteq> []" "list_all wfName ns" "r = join ((ds @ [n]) @ ns) ''/''"
      and k: "\<And>k. 1 \<le> k \<and> k \<le> length ns \<Longrightarrow>
             isIncluded (join ((ds @ [n]) @ take k ns) ''/'') compiledRules"
      by blast
    have "isIncluded (join (ds @ take k (n # ns)) ''/'') compiledRules"
      if "1 \<le> k \<and> k \<le> length (n # ns)" for k
    proof (cases k)
      case 0
      with that show ?thesis by simp
    next
      case (Suc j)
      show ?thesis
      proof (cases j)
        case 0
        with Suc inc rel show ?thesis by simp
      next
        case (Suc i)
        with \<open>k = Suc j\<close> that k [of j] show ?thesis by simp
      qed
    qed
    with ns wn have "n # ns \<noteq> [] \<and> list_all wfName (n # ns) \<and> r = join (ds @ n # ns) ''/''
        \<and> (\<forall>k. 1 \<le> k \<and> k \<le> length (n # ns) \<longrightarrow>
              isIncluded (join (ds @ take k (n # ns)) ''/'') compiledRules)"
      by simp
    then show ?thesis by blast
  next
    case False
    with "3.prems" have "r \<in> set (keptFiles compiledRules es relDir)"
      by (auto split: if_splits option.splits)
    with "3.IH" "3.prems" show ?thesis by (auto split: if_splits)
  qed
next
  case (4 compiledRules n es relDir)
  then show ?case by simp
qed

section \<open>The traversal and the final tree\<close>

lemma walkDir_excluded_files:
  "list_all (excludedFile rules relDir) es \<Longrightarrow> walkDir rules es relDir root = Inr root"
proof (induction es)
  case Nil
  show ?case by simp
next
  case (Cons e es)
  then show ?case by (cases e) (simp_all add: excludedFile_def Let_def)
qed

lemma walkDir_no_kept:
  "keptFiles rules es relDir = [] \<Longrightarrow> walkDir rules es relDir root = Inr root' \<Longrightarrow> root' = root"
  using walkDir_keptFiles [of rules es relDir root root'] by simp

lemma buildTree_allNonEmpty: "buildTree listing rules = Inr t \<Longrightarrow> allNonEmpty t"
  using allNonEmpty_walkDir [of rules _ "[]" "createNode []" t]
  by (auto simp: buildTree_def Let_def createNode_def split: option.splits)

lemma buildTree_inTree:
  assumes b: "buildTree (Some es) rules = Inr t" and wf: "list_all wfEntry es"
    and p: "inTree t p" and q: "q \<noteq> []" "prefix q p"
  shows "isIncluded (join q ''/'') rules"
proof -
  let ?pss = "map (\<lambda>r. split r (CHR ''/'')) (keptFiles rules es [])"
  from b have "walkDir rules es [] (createNode []) = Inr t"
    by (simp add: buildTree_def)
  then have t: "t = foldl insertPath (createNode []) ?pss"
    by (rule walkDir_keptFiles)
  have "\<forall>ps \<in> set ?pss. ps \<noteq> []" by (simp add: split_not_Nil)
  from inTree_foldl [OF this, of "createNode []" p] p t
  obtain r where r: "r \<in> set (keptFiles rules es [])" and pr: "prefix p (split r (CHR ''/''))"
    by (auto simp: inTree_createNode)
  from keptFiles_included [OF wf, of "[]" "[]" r rules] r
  obtain ns where ns: "ns \<noteq> []" "list_all wfName ns" "r = join ns ''/''"
    and k: "\<And>k. 1 \<le> k \<and> k \<le> length ns \<Longrightarrow> isIncluded (join (take k ns) ''/'') rules"
    by auto
  from ns have "split r (CHR ''/'') = ns"
    using split_join [of ns] by (simp add: list_all_iff wfName_def)
  with pr q have qn: "prefix q ns" by auto
  then have "q = take (length q) ns" by (auto simp: prefix_def)
  moreover from qn q have "1 \<le> length q \<and> length q \<le> length ns"
    by (cases q) (auto simp: prefix_def)
  ultimately show ?thesis using k [of "length q"] by simp
qed

text \<open>
  The two scenarios of the specification (8), evaluated: the rule \<open>build/\<close> on a directory
  with \<open>a/x.txt\<close>, \<open>a/build/y.txt\<close> and \<open>README.md\<close>; the rules \<open>build/\<close> and
  \<open>!build/keep.txt\<close> on a directory with \<open>build/keep.txt\<close>; the rules \<open>*.log\<close> and
  \<open>!important.log\<close> on three files.
\<close>

lemma scenario_build:
  "buildTree
     (Some [Directory ''a'' (Some [File ''x.txt'', Directory ''build'' (Some [File ''y.txt''])]),
            File ''README.md''])
     (rulesOfLines [''build/'']) =
   Inr (Node [] [(''a'', Node ''a'' [] [''x.txt''])] [''README.md''])"
  by code_simp

lemma scenario_pruned:
  "buildTree (Some [Directory ''build'' (Some [File ''keep.txt''])])
     (rulesOfLines [''build/'', ''!build/keep.txt'']) = Inr (Node [] [] [])
   \<and> isIncluded ''build/keep.txt'' (rulesOfLines [''build/'', ''!build/keep.txt''])
   \<and> \<not> isIncluded ''build'' (rulesOfLines [''build/'', ''!build/keep.txt''])"
  by code_simp

lemma scenario_logs:
  "buildTree (Some [File ''debug.log'', File ''important.log'', File ''notes.txt''])
     (rulesOfLines [''*.log'', ''!important.log'']) =
   Inr (Node [] [] [''important.log'', ''notes.txt''])"
  by code_simp

text \<open>
  Claim C1. A directory entry that the inclusion decision excludes is passed over: the
  traversal continues with the next entry, whatever the directory holds (also when it
  cannot be read), and keeps none of its files. In the tree that \<open>buildTree\<close> returns for
  a directory with well-formed entry names, every path (of a file or of a directory
  node) has only included ancestors and is included itself; so nothing at or below an
  excluded path is in the tree, whatever a later rule says of the descendant alone.
\<close>

theorem excluded_directory_is_pruned:
  "(\<not> isIncluded (relOf relDir (Directory n l)) rules \<longrightarrow>
      walkDir rules (Directory n l # es) relDir root = walkDir rules es relDir root
      \<and> walkDir rules (Directory n l # es) relDir root =
          walkDir rules (Directory n l' # es) relDir root
      \<and> keptFiles rules (Directory n l # es) relDir = keptFiles rules es relDir)
   \<and> (buildTree (Some es') rules = Inr t \<and> list_all wfEntry es' \<and> inTree t p
        \<and> q \<noteq> [] \<and> prefix q p \<longrightarrow> isIncluded (join q ''/'') rules)"
  using buildTree_inTree [of es' rules t p q]
  by (simp add: relOf_def Let_def)

theorem excluded_directory_is_pruned_witness:
  "\<not> isIncluded (relOf ''a'' (Directory ''build'' (Some [File ''keep.txt'']))) exampleRules
   \<and> isIncluded ''a/build/keep.txt'' exampleRules
   \<and> walkDir exampleRules [Directory ''build'' (Some [File ''keep.txt''])] ''a'' exampleTree =
       Inr exampleTree
   \<and> walkDir exampleRules [Directory ''build'' None] ''a'' exampleTree = Inr exampleTree
   \<and> buildTree (Some exampleDir) exampleRules =
       Inr (Node [] [(''a'', Node ''a'' [] [''x.txt''])] [''README.md''])
   \<and> list_all wfEntry exampleDir
   \<and> inTree (Node [] [(''a'', Node ''a'' [] [''x.txt''])] [''README.md'']) [''a'', ''x.txt'']
   \<and> isIncluded (join [''a''] ''/'') exampleRules
   \<and> \<not> inTree (Node [] [(''a'', Node ''a'' [] [''x.txt''])] [''README.md''])
         [''a'', ''build'', ''keep.txt'']"
proof -
  let ?t = "Node [] [(''a'', Node ''a'' [] [''x.txt''])] [''README.md'']"
  have x: "\<not> isIncluded (relOf ''a'' (Directory ''build'' (Some [File ''keep.txt'']))) exampleRules"
    by code_simp
  have k: "isIncluded ''a/build/keep.txt'' exampleRules" by code_simp
  have b: "buildTree (Some exampleDir) exampleRules = Inr ?t" by code_simp
  have w: "list_all wfEntry exampleDir" by code_simp
  have i: "inTree ?t [''a'', ''x.txt'']" by code_simp
  have nb: "\<not> isIncluded (join [''a'', ''build''] ''/'') exampleRules" by code_simp
  have pa: "[''a''] \<noteq> [] \<and> prefix [''a''] [''a'', ''x.txt'']" by simp
  have pb: "[''a'', ''build''] \<noteq> [] \<and> prefix [''a'', ''build''] [''a'', ''build'', ''keep.txt'']"
    by simp
  from excluded_directory_is_pruned
    [of "''a''" "''build''" "Some [File ''keep.txt'']" exampleRules "[]" exampleTree None] x
  have 1: "walkDir exampleRules [Directory ''build'' (Some [File ''keep.txt''])] ''a'' exampleTree =
       Inr exampleTree"
    and 2: "walkDir exampleRules [Directory ''build'' None] ''a'' exampleTree = Inr exampleTree"
    by simp_all
  from excluded_directory_is_pruned
    [of _ _ _ exampleRules _ _ _ exampleDir ?t "[''a'', ''x.txt'']" "[''a'']"] b w i pa
  have 3: "isIncluded (join [''a''] ''/'') exampleRules" by blast
  from excluded_directory_is_pruned
    [of _ _ _ exampleRules _ _ _ exampleDir ?t "[''a'', ''build'', ''keep.txt'']" "[''a'', ''build'']"]
    b w nb pb
  have 4: "\<not> inTree ?t [''a'', ''build'', ''keep.txt'']" by blast
  from x k 1 2 b w i 3 4 show ?thesis by blast
qed

text \<open>
  Claim C6. A directory whose recursive scan keeps no file leaves the tree as it was:
  no node is made for it; so does a directory that holds excluded files only. Every node
  of the tree that \<open>buildTree\<close> returns, the root apart, holds a file or a child that is
  not empty. \<open>insertPath\<close> makes nodes only on the chain of ancestors of the file it
  inserts.
\<close>

theorem empty_directory_is_not_materialized:
  "(keptFiles rules es relDir = [] \<and> walkDir rules es relDir root = Inr root' \<longrightarrow> root' = root)
   \<and> (list_all (excludedFile rules relDir) es \<longrightarrow> walkDir rules es relDir root = Inr root)
   \<and> (buildTree listing rules = Inr t \<longrightarrow> allNonEmpty t)
   \<and> (hasNode (insertPath root parts) p \<longrightarrow> hasNode root p \<or> prefix p (butlast parts))"
  using walkDir_no_kept [of rules es relDir root root'] walkDir_excluded_files [of rules relDir es root]
    buildTree_allNonEmpty [of listing rules t] hasNode_insertPath [of root parts p]
  by blast

theorem empty_directory_is_not_materialized_witness:
  "keptFiles exampleRules [File ''a.log'', File ''b.log''] ''logs'' = []
   \<and> list_all (excludedFile exampleRules ''logs'') [File ''a.log'', File ''b.log'']
   \<and> walkDir exampleRules [File ''a.log'', File ''b.log''] ''logs'' exampleTree = Inr exampleTree
   \<and> buildTree (Some exampleDir) exampleRules =
       Inr (Node [] [(''a'', Node ''a'' [] [''x.txt''])] [''README.md''])
   \<and> allNonEmpty (Node [] [(''a'', Node ''a'' [] [''x.txt''])] [''README.md''])
   \<and> hasNode (insertPath exampleTree [''c'', ''d'', ''f.txt'']) [''c'', ''d'']
   \<and> prefix [''c'', ''d''] (butlast [''c'', ''d'', ''f.txt''])"
proof -
  let ?t = "Node [] [(''a'', Node ''a'' [] [''x.txt''])] [''README.md'']"
  have k: "keptFiles exampleRules [File ''a.log'', File ''b.log''] ''logs'' = []" by code_simp
  have x: "list_all (excludedFile exampleRules ''logs'') [File ''a.log'', File ''b.log'']"
    by code_simp
  have b: "buildTree (Some exampleDir) exampleRules = Inr ?t" by code_simp
  have h: "hasNode (insertPath exampleTree [''c'', ''d'', ''f.txt'']) [''c'', ''d'']" by code_simp
  have nh: "\<not> hasNode exampleTree [''c'', ''d'']" by code_simp
  from empty_directory_is_not_materialized
    [of exampleRules "[File ''a.log'', File ''b.log'']" "''logs''" exampleTree _
        "Some exampleDir" ?t "[''c'', ''d'', ''f.txt'']" "[''c'', ''d'']"]
    x b h nh
  have 1: "walkDir exampleRules [File ''a.log'', File ''b.log''] ''logs'' exampleTree = Inr exampleTree"
    and 2: "allNonEmpty ?t"
    and 3: "prefix [''c'', ''d''] (butlast [''c'', ''d'', ''f.txt''])"
    by blast+
  from k x 1 b 2 h 3 show ?thesis by blast
qed

text \<open>
  Claim C10. \<open>insertPath\<close> with an empty list of parts returns the tree as it is. With
  any parts, a node that is not on the chain of ancestors of the inserted file (its path
  is not a prefix of the parts without the last) is found unchanged, with all that is
  below it; and every node of the tree is still there afterwards, with its name, with
  its files first in the file list and its child keys first among the child keys.
\<close>

theorem insertPath_frame:
  "insertPath root [] = root
   \<and> (\<not> prefix q (butlast parts) \<longrightarrow> lookup (insertPath root parts) q = lookup root q)
   \<and> (lookup root q = Some n \<longrightarrow>
        (\<exists>n'. lookup (insertPath root parts) q = Some n' \<and> name n' = name n
           \<and> prefix (files n) (files n')
           \<and> prefix (map fst (children n)) (map fst (children n'))))"
  using lookup_insertPath_off [of q parts root] lookup_insertPath_on [of root q n parts]
  by simp

theorem insertPath_frame_witness:
  "\<not> prefix [''b''] (butlast [''a'', ''c'', ''y.txt''])
   \<and> lookup (insertPath exampleTree [''a'', ''c'', ''y.txt'']) [''b''] = Some (Node ''b'' [] [''z.txt''])
   \<and> lookup exampleTree [''a''] = Some (Node ''a'' [] [''x.txt''])
   \<and> (\<exists>n'. lookup (insertPath exampleTree [''a'', ''c'', ''y.txt'']) [''a''] = Some n'
         \<and> name n' = ''a'' \<and> prefix [''x.txt''] (files n') \<and> prefix [] (map fst (children n')))
   \<and> lookup (insertPath exampleTree [''a'', ''c'', ''y.txt'']) [''a''] =
       Some (Node ''a'' [(''c'', Node ''c'' [] [''y.txt''])] [''x.txt''])"
proof -
  have np: "\<not> prefix [''b''] (butlast [''a'', ''c'', ''y.txt''])" by simp
  have lb: "lookup exampleTree [''b''] = Some (Node ''b'' [] [''z.txt''])" by code_simp
  have la: "lookup exampleTree [''a''] = Some (Node ''a'' [] [''x.txt''])" by code_simp
  have ra: "lookup (insertPath exampleTree [''a'', ''c'', ''y.txt'']) [''a''] =
       Some (Node ''a'' [(''c'', Node ''c'' [] [''y.txt''])] [''x.txt''])" by code_simp
  from insertPath_frame [of exampleTree "[''b'']" "[''a'', ''c'', ''y.txt'']"] np lb
  have 1: "lookup (insertPath exampleTree [''a'', ''c'', ''y.txt'']) [''b''] =
      Some (Node ''b'' [] [''z.txt''])" by simp
  from insertPath_frame [of exampleTree "[''a'']" "[''a'', ''c'', ''y.txt'']" "Node ''a'' [] [''x.txt'']"] la
  have 2: "\<exists>n'. lookup (insertPath exampleTree [''a'', ''c'', ''y.txt'']) [''a''] = Some n'
         \<and> name n' = ''a'' \<and> prefix [''x.txt''] (files n') \<and> prefix [] (map fst (children n'))"
    by simp
  from np 1 la 2 ra show ?thesis by blast
qed

end
